theory Spec2Isabelle
  imports Complex_Main "HOL-Library.AList"
begin

section \<open>Key names and key objects (src/utils/keyutils.py)\<close>

text \<open>
  A Python string is a list of Unicode code points; \<open>str_of\<close> gives the code points of
  an ASCII literal. A key object of the input library is either a member of the
  enumeration \<^verbatim>\<open>keyboard.Key\<close>, written here \<open>Key n\<close> with \<open>n\<close> the member's name, or
  a \<^verbatim>\<open>keyboard.KeyCode(char=c)\<close>, written \<open>KeyCode c\<close>.
\<close>

type_synonym str = "nat list"

definition str_of :: "string \<Rightarrow> str" where
  "str_of s = map of_char s"

datatype key = Key string | KeyCode str

datatype error = ValueError str | ZeroDivisionError | NegativeSamples int

definition SPECIAL_KEYS :: "(str \<times> key) list" where
  "SPECIAL_KEYS =
    [
     (str_of ''alt'', Key ''alt''), (str_of ''alt_gr'', Key ''alt_gr''),
     (str_of ''alt_l'', Key ''alt_l''), (str_of ''alt_r'', Key ''alt_r''),
     (str_of ''backspace'', Key ''backspace''), (str_of ''caps_lock'', Key ''caps_lock''),
     (str_of ''cmd'', Key ''cmd''), (str_of ''cmd_l'', Key ''cmd_l''),
     (str_of ''cmd_r'', Key ''cmd_r''), (str_of ''ctrl'', Key ''ctrl''),
     (str_of ''ctrl_l'', Key ''ctrl_l''), (str_of ''ctrl_r'', Key ''ctrl_r''),
     (str_of ''delete'', Key ''delete''), (str_of ''down'', Key ''down''),
     (str_of ''end'', Key ''end''), (str_of ''enter'', Key ''enter''),
     (str_of ''esc'', Key ''esc''), (str_of ''f1'', Key ''f1''),
     (str_of ''f2'', Key ''f2''), (str_of ''f3'', Key ''f3''),
     (str_of ''f4'', Key ''f4''), (str_of ''f5'', Key ''f5''),
     (str_of ''f6'', Key ''f6''), (str_of ''f7'', Key ''f7''),
     (str_of ''f8'', Key ''f8''), (str_of ''f9'', Key ''f9''),
     (str_of ''f10'', Key ''f10''), (str_of ''f11'', Key ''f11''),
     (str_of ''f12'', Key ''f12''), (str_of ''f13'', Key ''f13''),
     (str_of ''f14'', Key ''f14''), (str_of ''f15'', Key ''f15''),
     (str_of ''f16'', Key ''f16''), (str_of ''f17'', Key ''f17''),
     (str_of ''f18'', Key ''f18''), (str_of ''f19'', Key ''f19''),
     (str_of ''f20'', Key ''f20''), (str_of ''home'', Key ''home''),
     (str_of ''insert'', Key ''insert''), (str_of ''left'', Key ''left''),
     (str_of ''media_next'', Key ''media_next''), (str_of ''media_play_pause'', Key ''media_play_pause''),
     (str_of ''media_previous'', Key ''media_previous''), (str_of ''media_volume_down'', Key ''media_volume_down''),
     (str_of ''media_volume_mute'', Key ''media_volume_mute''), (str_of ''media_volume_up'', Key ''media_volume_up''),
     (str_of ''menu'', Key ''menu''), (str_of ''num_lock'', Key ''num_lock''),
     (str_of ''page_down'', Key ''page_down''), (str_of ''page_up'', Key ''page_up''),
     (str_of ''pause'', Key ''pause''), (str_of ''print_screen'', Key ''print_screen''),
     (str_of ''right'', Key ''right''), (str_of ''scroll_lock'', Key ''scroll_lock''),
     (str_of ''shift'', Key ''shift''), (str_of ''shift_l'', Key ''shift_l''),
     (str_of ''shift_r'', Key ''shift_r''), (str_of ''space'', Key ''space''),
     (str_of ''tab'', Key ''tab''), (str_of ''up'', Key ''up'')
    ]"

text \<open>
  \<^verbatim>\<open>key_object\<close>. The built-in \<^verbatim>\<open>str.lower\<close> is not part of the repository and is
  the parameter \<open>lower\<close>, an arbitrary function on strings. The name is lower-cased
  first; a special name gives its enumeration member, any other name whose lower-cased
  form has length one gives a \<open>KeyCode\<close>, everything else raises
  \<^verbatim>\<open>ValueError(f"Unknown key: {name}")\<close> with the lower-cased name.
\<close>

definition key_object :: "(str \<Rightarrow> str) \<Rightarrow> str \<Rightarrow> error + key" where
  "key_object lower name0 =
     (let name = lower name0 in
      case map_of SPECIAL_KEYS name of
        Some k \<Rightarrow> Inr k
      | None \<Rightarrow>
          if length name = 1 then Inr (KeyCode name)
          else Inl (ValueError (str_of ''Unknown key: '' @ name)))"

text \<open>
  \<^verbatim>\<open>keys_dict\<close> is the dictionary comprehension
  \<^verbatim>\<open>{key_object(name): False for name in key_names}\<close>. The dictionary is an association
  list in insertion order; the names are processed from left to right and the first
  name that \<^verbatim>\<open>key_object\<close> rejects aborts the whole construction.
\<close>

type_synonym keys = "(key \<times> bool) list"

fun keys_dict_from :: "(str \<Rightarrow> str) \<Rightarrow> keys \<Rightarrow> str list \<Rightarrow> error + keys" where
  "keys_dict_from lower d [] = Inr d"
| "keys_dict_from lower d (name # key_names) =
     (case key_object lower name of
        Inl e \<Rightarrow> Inl e
      | Inr k \<Rightarrow> keys_dict_from lower (AList.update k False d) key_names)"

definition keys_dict :: "(str \<Rightarrow> str) \<Rightarrow> str list \<Rightarrow> error + keys" where
  "keys_dict lower key_names = keys_dict_from lower [] key_names"


text \<open>
  The values of \<^verbatim>\<open>str.lower\<close> on strings over the code points up to U+00FF and
  U+0130, the instance of \<open>lower\<close> that the examples use: the letters \<open>A\<close> to \<open>Z\<close>
  and the capital letters of Latin-1 (U+00C0 to U+00DE without the multiplication sign
  U+00D7) move up by 32, the capital I with dot above (U+0130) becomes the two code
  points U+0069 U+0307, every other code point of that range stays. Code points outside
  that range are left alone here, so on strings that contain one this function is not
  \<^verbatim>\<open>str.lower\<close>.
\<close>

definition lower_cp :: "nat \<Rightarrow> str" where
  "lower_cp c =
     (if 65 \<le> c \<and> c \<le> 90 then [c + 32]
      else if 192 \<le> c \<and> c \<le> 222 \<and> c \<noteq> 215 then [c + 32]
      else if c = 304 then [105, 775]
      else [c])"

definition lower_latin :: "str \<Rightarrow> str" where
  "lower_latin s = concat (map lower_cp s)"

section \<open>Key events and the gate (src/main.py)\<close>

text \<open>
  The global dictionary \<^verbatim>\<open>keys\<close> is passed explicitly. \<^verbatim>\<open>on_press\<close> and
  \<^verbatim>\<open>on_release\<close> assign only when \<^verbatim>\<open>key in keys\<close>; the render callback reads
  \<^verbatim>\<open>all(keys.values())\<close>.
\<close>

definition on_press :: "keys \<Rightarrow> key \<Rightarrow> keys" where
  "on_press keys k = (if k \<in> set (map fst keys) then AList.update k True keys else keys)"

definition on_release :: "keys \<Rightarrow> key \<Rightarrow> keys" where
  "on_release keys k = (if k \<in> set (map fst keys) then AList.update k False keys else keys)"

datatype event = Press key | Release key

fun handle :: "keys \<Rightarrow> event \<Rightarrow> keys" where
  "handle keys (Press k) = on_press keys k"
| "handle keys (Release k) = on_release keys k"

definition listener :: "keys \<Rightarrow> event list \<Rightarrow> keys" where
  "listener keys evs = foldl handle keys evs"

definition gate :: "keys \<Rightarrow> bool" where
  "gate keys = list_all snd keys"

section \<open>The oscillator and the render callback (src/main.py)\<close>

text \<open>
  The module-level constants \<^verbatim>\<open>FREQUENCY\<close>, \<^verbatim>\<open>VOLUME\<close>, \<^verbatim>\<open>SAMPLERATE\<close> and
  \<^verbatim>\<open>CHANNELS\<close> are collected in a record that every function takes. The command line
  parses frequency and volume as floats and sample rate and channel count as integers;
  the channel count is the width of the output stream's buffer, a natural number.
  Floating-point numbers are idealised as reals throughout: arithmetic is exact.
  An audio block is a list of frames, a frame a list of one sample per channel.
\<close>

record params =
  FREQUENCY :: real
  VOLUME :: real
  SAMPLERATE :: int
  CHANNELS :: nat

type_synonym audio = "real list list"

text \<open>
  What a call can do: run forever (\<open>None\<close>), raise (\<open>Some (Inl e)\<close>) or return
  (\<open>Some (Inr v)\<close>).
\<close>

type_synonym 'a outcome = "(error + 'a) option"

text \<open>
  \<^verbatim>\<open>np.linspace(start, stop, num, endpoint=False)\<close>: a negative count raises
  \<^verbatim>\<open>ValueError\<close>; otherwise point \<open>i\<close> is \<open>start + i * step\<close> with
  \<open>step = (stop - start) / num\<close>, for \<open>i = 0, ..., num - 1\<close>.
\<close>

definition linspace :: "real \<Rightarrow> real \<Rightarrow> int \<Rightarrow> error + real list" where
  "linspace start stop num =
     (if num < 0 then Inl (NegativeSamples num)
      else Inr (map (\<lambda>i. start + real i * ((stop - start) / real_of_int num)) [0..<nat num]))"

text \<open>\<^verbatim>\<open>np.tile(audio[:, np.newaxis], (1, CHANNELS))\<close>: every sample repeated across the channels.\<close>

definition tile :: "real list \<Rightarrow> nat \<Rightarrow> audio" where
  "tile samples channels = map (\<lambda>x. replicate channels x) samples"

text \<open>\<^verbatim>\<open>np.zeros((frames, CHANNELS))\<close>.\<close>

definition zeros :: "nat \<Rightarrow> nat \<Rightarrow> audio" where
  "zeros frames channels = replicate frames (replicate channels 0)"

text \<open>
  The loop \<^verbatim>\<open>while offset >= 1 / FREQUENCY: offset -= 1 / FREQUENCY\<close>, with the period
  \<open>1 / FREQUENCY\<close> as its first argument. It does not return when the period is not
  positive and the offset is at least the period.
\<close>

partial_function (option) wrap_offset :: "real \<Rightarrow> real \<Rightarrow> real option" where
  "wrap_offset period offset =
     (if offset \<ge> period then wrap_offset period (offset - period) else Some offset)"

declare wrap_offset.simps [code]

text \<open>
  \<^verbatim>\<open>generate_audio\<close>. The division by \<^verbatim>\<open>SAMPLERATE\<close> comes first and raises
  \<^verbatim>\<open>ZeroDivisionError\<close> for a zero rate, then \<^verbatim>\<open>linspace\<close> rejects a negative count,
  then the loop divides by \<^verbatim>\<open>FREQUENCY\<close>.
\<close>

definition generate_audio :: "params \<Rightarrow> int \<Rightarrow> real \<Rightarrow> (audio \<times> real) outcome" where
  "generate_audio p num_samples offset =
     (if SAMPLERATE p = 0 then Some (Inl ZeroDivisionError)
      else
        (case linspace offset
               (real_of_int num_samples / real_of_int (SAMPLERATE p) + offset) num_samples of
          Inl e \<Rightarrow> Some (Inl e)
        | Inr t \<Rightarrow>
            (let offset1 = offset + real_of_int num_samples / real_of_int (SAMPLERATE p) in
             if FREQUENCY p = 0 then Some (Inl ZeroDivisionError)
             else
               (case wrap_offset (1 / FREQUENCY p) offset1 of
                  None \<Rightarrow> None
                | Some offset2 \<Rightarrow>
                    Some (Inr (tile (map (\<lambda>t. sin (2 * pi * FREQUENCY p * t) * VOLUME p) t)
                                 (CHANNELS p),
                               offset2))))))"

text \<open>Python's \<^verbatim>\<open>int\<close> of a float truncates towards zero.\<close>

definition py_int :: "real \<Rightarrow> int" where
  "py_int x = (if 0 \<le> x then \<lfloor>x\<rfloor> else \<lceil>x\<rceil>)"

text \<open>Line 113: \<^verbatim>\<open>num = int(((1 / FREQUENCY) - offset) * SAMPLERATE)\<close>.\<close>

definition remaining_samples :: "params \<Rightarrow> real \<Rightarrow> int" where
  "remaining_samples p offset =
     py_int ((1 / FREQUENCY p - offset) * real_of_int (SAMPLERATE p))"

text \<open>
  \<^verbatim>\<open>audio_callback\<close> takes the key dictionary, the frame count and the stored offset,
  and returns the buffer it has written and the offset it stores. The status report is
  printed only and left out. With the gate asserted the whole buffer is the generated
  block; otherwise the buffer is zeroed and, for a nonzero offset, the first \<open>num\<close>
  frames are overwritten.
\<close>

definition audio_callback :: "params \<Rightarrow> keys \<Rightarrow> nat \<Rightarrow> real \<Rightarrow> (audio \<times> real) outcome" where
  "audio_callback p keys frames offset =
     (if gate keys then
        (case generate_audio p (int frames) offset of
           None \<Rightarrow> None
         | Some (Inl e) \<Rightarrow> Some (Inl e)
         | Some (Inr (audio, offset1)) \<Rightarrow> Some (Inr (audio, offset1)))
      else
        let outdata = zeros frames (CHANNELS p) in
        if offset \<noteq> 0 then
          if FREQUENCY p = 0 then Some (Inl ZeroDivisionError)
          else
            let num = remaining_samples p offset in
            if num = 0 then Some (Inr (outdata, 0))
            else
              let num = (if num > int frames then int frames else num) in
              (case generate_audio p num offset of
                 None \<Rightarrow> None
               | Some (Inl e) \<Rightarrow> Some (Inl e)
               | Some (Inr (audio, new_offset)) \<Rightarrow>
                   Some (Inr (audio @ drop (nat num) outdata, max 0 new_offset)))
        else Some (Inr (outdata, offset)))"


text \<open>
  A run of the stream: the callback is invoked once per element of the list, each with
  the key dictionary read at that moment and a frame count, and every invocation starts
  from the offset the one before it stored. The result is the list of buffers and the
  last offset.
\<close>

fun stream :: "params \<Rightarrow> (keys \<times> nat) list \<Rightarrow> real \<Rightarrow> (audio list \<times> real) outcome" where
  "stream p [] offset = Some (Inr ([], offset))"
| "stream p ((keys, frames) # rest) offset =
     (case audio_callback p keys frames offset of
        None \<Rightarrow> None
      | Some (Inl e) \<Rightarrow> Some (Inl e)
      | Some (Inr (buf, offset1)) \<Rightarrow>
          (case stream p rest offset1 of
             None \<Rightarrow> None
           | Some (Inl e) \<Rightarrow> Some (Inl e)
           | Some (Inr (bufs, offset2)) \<Rightarrow> Some (Inr (buf # bufs, offset2))))"

text \<open>
  Consecutive calls of \<^verbatim>\<open>generate_audio\<close>, one per sample count of the list, each
  fed the offset returned by the call before it; the blocks are concatenated.
\<close>

fun generate_chunks :: "params \<Rightarrow> nat list \<Rightarrow> real \<Rightarrow> (audio \<times> real) outcome" where
  "generate_chunks p [] offset = Some (Inr ([], offset))"
| "generate_chunks p (n # ns) offset =
     (case generate_audio p (int n) offset of
        None \<Rightarrow> None
      | Some (Inl e) \<Rightarrow> Some (Inl e)
      | Some (Inr (a, offset1)) \<Rightarrow>
          (case generate_chunks p ns offset1 of
             None \<Rightarrow> None
           | Some (Inl e) \<Rightarrow> Some (Inl e)
           | Some (Inr (b, offset2)) \<Rightarrow> Some (Inr (a @ b, offset2))))"

text \<open>The number of frames of a buffer that are not silent: some channel is not zero.\<close>

definition sounding :: "audio \<Rightarrow> nat" where
  "sounding buf = length (filter (\<lambda>frame. \<exists>x \<in> set frame. x \<noteq> 0) buf)"

text \<open>
  The parameters \<^verbatim>\<open>main\<close> starts from when no option is given (lines 131 to 135), and
  a second set with a period of one second and two samples per period, small enough to
  follow a release tail by hand.
\<close>

definition default_params :: params where
  "default_params = \<lparr>FREQUENCY = 440, VOLUME = 1 / 2, SAMPLERATE = 44100, CHANNELS = 2\<rparr>"

definition unit_params :: params where
  "unit_params = \<lparr>FREQUENCY = 1, VOLUME = 1, SAMPLERATE = 2, CHANNELS = 1\<rparr>"

section \<open>Reference definitions\<close>

text \<open>
  The specification's account of the oscillator, to compare \<open>generate_audio\<close> with:
  frame \<open>i\<close> repeats \<open>sin (2\<pi> \<cdot> frequency \<cdot> (offset + i / sample_rate)) \<cdot> volume\<close> on
  every channel, and the new offset may be taken by a direct modulo of the period.
\<close>

definition spec_frames :: "params \<Rightarrow> real \<Rightarrow> nat \<Rightarrow> audio" where
  "spec_frames p offset n =
     map (\<lambda>i. replicate (CHANNELS p)
                 (sin (2 * pi * FREQUENCY p * (offset + real i / real_of_int (SAMPLERATE p)))
                  * VOLUME p)) [0..<n]"

definition wrap_mod :: "params \<Rightarrow> real \<Rightarrow> real" where
  "wrap_mod p y = y - of_int \<lfloor>y * FREQUENCY p\<rfloor> / FREQUENCY p"

text \<open>
  Two measures of a release tail, used in the proofs: the samples still to be played
  before the period is complete, and a bound on the invocations until the offset is zero.
\<close>

definition tail_left :: "params \<Rightarrow> real \<Rightarrow> real" where
  "tail_left p offset =
     (if offset = 0 then 0 else (1 / FREQUENCY p - offset) * real_of_int (SAMPLERATE p))"

definition calls_left :: "params \<Rightarrow> real \<Rightarrow> nat" where
  "calls_left p offset = (if offset = 0 then 0 else nat (remaining_samples p offset) + 1)"

section \<open>Properties of the key mapping\<close>





























section \<open>Properties of the key events\<close>


lemma on_press_absent: "k \<notin> set (map fst keys) \<Longrightarrow> on_press keys k = keys"
  by (simp add: on_press_def)

lemma on_release_absent: "k \<notin> set (map fst keys) \<Longrightarrow> on_release keys k = keys"
  by (simp add: on_release_def)

lemma on_press_other: "k' \<noteq> k \<Longrightarrow> map_of (on_press keys k) k' = map_of keys k'"
  by (simp add: on_press_def update_conv')

lemma on_release_other: "k' \<noteq> k \<Longrightarrow> map_of (on_release keys k) k' = map_of keys k'"
  by (simp add: on_release_def update_conv')

lemma on_press_keys: "map fst (on_press keys k) = map fst keys"
  by (simp add: on_press_def update_keys)

lemma on_release_keys: "map fst (on_release keys k) = map fst keys"
  by (simp add: on_release_def update_keys)

lemma on_press_present: "k \<in> set (map fst keys) \<Longrightarrow> map_of (on_press keys k) k = Some True"
  by (simp add: on_press_def update_conv')

lemma on_release_present: "k \<in> set (map fst keys) \<Longrightarrow> map_of (on_release keys k) k = Some False"
  by (simp add: on_release_def update_conv')

lemma handle_keys: "map fst (handle keys ev) = map fst keys"
  by (cases ev) (simp_all add: on_press_keys on_release_keys)

lemma listener_keys: "map fst (listener keys evs) = map fst keys"
  unfolding listener_def
  by (induction evs arbitrary: keys) (simp_all add: handle_keys)

lemma update_False_values:
  "snd ` set (AList.update k False d) \<subseteq> insert False (snd ` set d)"
  by (induction d) auto

lemma keys_dict_from_values:
  "keys_dict_from lower d ns = Inr d' \<Longrightarrow> \<forall>e \<in> set d. \<not> snd e \<Longrightarrow> \<forall>e \<in> set d'. \<not> snd e"
proof (induction ns arbitrary: d)
  case Nil
  then show ?case by simp
next
  case (Cons n ns)
  then obtain k where k: "key_object lower n = Inr k" "keys_dict_from lower (AList.update k False d) ns = Inr d'"
    by (auto split: sum.splits)
  have "\<forall>e \<in> set (AList.update k False d). \<not> snd e"
    using update_False_values [of k d] Cons.prems(2) by auto
  with Cons.IH k(2) show ?case by blast
qed

lemma keys_dict_from_nonempty:
  "keys_dict_from lower d ns = Inr d' \<Longrightarrow> d \<noteq> [] \<or> ns \<noteq> [] \<Longrightarrow> d' \<noteq> []"
proof (induction ns arbitrary: d)
  case Nil
  then show ?case by simp
next
  case (Cons n ns)
  then obtain k where k: "keys_dict_from lower (AList.update k False d) ns = Inr d'"
    by (auto split: sum.splits)
  with Cons.IH [of "AList.update k False d"] show ?case
    by simp
qed

lemma gate_all_False: "d \<noteq> [] \<Longrightarrow> \<forall>e \<in> set d. \<not> snd e \<Longrightarrow> \<not> gate d"
  by (cases d) (simp_all add: gate_def)

lemma keys_dict_example:
  "keys_dict lower_latin [str_of ''Shift_R'', str_of ''a''] =
     Inr [(Key ''shift_r'', False), (KeyCode (str_of ''a''), False)]"
  by code_simp

text \<open>
  Claim C10. A press or release of a key that is not in the dictionary returns the
  dictionary unchanged (and with it the gate); an event for a configured key leaves
  every other key's entry as it was; no sequence of events changes the keys of the
  dictionary; \<open>keys_dict\<close> sets every entry to \<open>False\<close>, so with at least one
  configured key the gate starts deasserted, whatever the function \<open>lower\<close>.
\<close>

theorem key_events_frame:
  "(k0 \<notin> set (map fst keys) \<longrightarrow>
      on_press keys k0 = keys \<and> on_release keys k0 = keys
      \<and> gate (on_press keys k0) = gate keys \<and> gate (on_release keys k0) = gate keys)
   \<and> (k' \<noteq> k \<longrightarrow>
      map_of (on_press keys k) k' = map_of keys k'
      \<and> map_of (on_release keys k) k' = map_of keys k')
   \<and> map fst (listener keys evs) = map fst keys
   \<and> (keys_dict lower key_names = Inr d \<longrightarrow>
      (\<forall>e \<in> set d. snd e = False) \<and> (key_names \<noteq> [] \<longrightarrow> \<not> gate d))"
proof -
  have "(\<forall>e \<in> set d. snd e = False) \<and> (key_names \<noteq> [] \<longrightarrow> \<not> gate d)"
    if h: "keys_dict lower key_names = Inr d"
  proof -
    have f: "\<forall>e \<in> set d. \<not> snd e"
      using keys_dict_from_values [of lower "[]" key_names d] h by (simp add: keys_dict_def)
    have "d \<noteq> []" if "key_names \<noteq> []"
      using keys_dict_from_nonempty [of lower "[]" key_names d] h that by (simp add: keys_dict_def)
    with f show ?thesis using gate_all_False [of d] by auto
  qed
  then show ?thesis
    using on_press_absent [of k0 keys] on_release_absent [of k0 keys]
      on_press_other [of k' k keys] on_release_other [of k' k keys] listener_keys [of keys evs]
    by simp
qed

theorem key_events_frame_witness:
  "KeyCode (str_of ''z'') \<notin> set (map fst [(Key ''shift_r'', False), (KeyCode (str_of ''a''), True)])
   \<and> KeyCode (str_of ''a'') \<noteq> Key ''shift_r''
   \<and> keys_dict lower_latin [str_of ''Shift_R'', str_of ''a''] =
       Inr [(Key ''shift_r'', False), (KeyCode (str_of ''a''), False)]
   \<and> [str_of ''Shift_R'', str_of ''a''] \<noteq> []
   \<and> on_press [(Key ''shift_r'', False), (KeyCode (str_of ''a''), True)] (KeyCode (str_of ''z'')) =
       [(Key ''shift_r'', False), (KeyCode (str_of ''a''), True)]
   \<and> on_release [(Key ''shift_r'', False), (KeyCode (str_of ''a''), True)] (KeyCode (str_of ''z'')) =
       [(Key ''shift_r'', False), (KeyCode (str_of ''a''), True)]
   \<and> map_of (on_press [(Key ''shift_r'', False), (KeyCode (str_of ''a''), True)] (Key ''shift_r''))
       (KeyCode (str_of ''a'')) = Some True
   \<and> map_of (on_release [(Key ''shift_r'', False), (KeyCode (str_of ''a''), True)] (Key ''shift_r''))
       (KeyCode (str_of ''a'')) = Some True
   \<and> map fst (listener [(Key ''shift_r'', False), (KeyCode (str_of ''a''), True)]
       [Press (Key ''shift_r''), Press (KeyCode (str_of ''z'')), Release (KeyCode (str_of ''a''))]) =
       [Key ''shift_r'', KeyCode (str_of ''a'')]
   \<and> \<not> gate [(Key ''shift_r'', False), (KeyCode (str_of ''a''), False)]"
  using key_events_frame [of "KeyCode (str_of ''z'')" "[(Key ''shift_r'', False), (KeyCode (str_of ''a''), True)]"
      "KeyCode (str_of ''a'')" "Key ''shift_r''"
      "[Press (Key ''shift_r''), Press (KeyCode (str_of ''z'')), Release (KeyCode (str_of ''a''))]"
      lower_latin "[str_of ''Shift_R'', str_of ''a'']"
      "[(Key ''shift_r'', False), (KeyCode (str_of ''a''), False)]"]
  by (simp add: keys_dict_example) (simp add: str_of_def)

section \<open>Properties of the oscillator\<close>

lemma wrap_offset_below: "offset < period \<Longrightarrow> wrap_offset period offset = Some offset"
  by (subst wrap_offset.simps) simp

lemma wrap_offset_step:
  "period \<le> offset \<Longrightarrow> wrap_offset period offset = wrap_offset period (offset - period)"
  by (subst wrap_offset.simps) simp

lemma wrap_offset_floor:
  assumes P: "0 < P" and x0: "0 \<le> x"
  shows "wrap_offset P x = Some (x - of_int \<lfloor>x / P\<rfloor> * P)"
proof -
  have "nat \<lfloor>y / P\<rfloor> = n \<Longrightarrow> 0 \<le> y \<Longrightarrow> wrap_offset P y = Some (y - of_int \<lfloor>y / P\<rfloor> * P)"
    for n y
  proof (induction n arbitrary: y)
    case 0
    have "0 \<le> y / P" using P 0 by simp
    then have "0 \<le> \<lfloor>y / P\<rfloor>" by simp
    with 0 have fl: "\<lfloor>y / P\<rfloor> = 0" by linarith
    then have "y / P < 1" by (simp add: floor_eq_iff)
    then have "y < P" using P by (simp add: field_simps)
    then show ?case using fl by (simp add: wrap_offset_below)
  next
    case (Suc n)
    have fl: "\<lfloor>y / P\<rfloor> = int n + 1" using Suc.prems by linarith
    then have "1 \<le> y / P" by (simp add: floor_eq_iff)
    then have ge: "P \<le> y" using P by (simp add: field_simps)
    have "(y - P) / P = y / P - 1" using P by (simp add: field_simps)
    then have fl': "\<lfloor>(y - P) / P\<rfloor> = int n" using fl by simp
    have "wrap_offset P (y - P) = Some (y - P - of_int \<lfloor>(y - P) / P\<rfloor> * P)"
      using Suc.IH [of "y - P"] fl' ge by simp
    then show ?case using ge fl fl' by (simp add: wrap_offset_step algebra_simps)
  qed
  then show ?thesis using x0 by blast
qed

lemma wrap_offset_mod:
  "0 < FREQUENCY p \<Longrightarrow> 0 \<le> y \<Longrightarrow> wrap_offset (1 / FREQUENCY p) y = Some (wrap_mod p y)"
  using wrap_offset_floor [of "1 / FREQUENCY p" y] by (simp add: wrap_mod_def)

lemma wrap_mod_frac:
  "0 < FREQUENCY p \<Longrightarrow> wrap_mod p y = frac (y * FREQUENCY p) / FREQUENCY p"
  by (simp add: wrap_mod_def frac_def diff_divide_distrib)

lemma wrap_mod_bounds:
  assumes "0 < FREQUENCY p"
  shows "0 \<le> wrap_mod p y" and "wrap_mod p y < 1 / FREQUENCY p"
proof -
  show "0 \<le> wrap_mod p y"
    using assms by (simp add: wrap_mod_frac)
  have "frac (y * FREQUENCY p) < 1" by (rule frac_lt_1)
  then show "wrap_mod p y < 1 / FREQUENCY p"
    using assms by (simp add: wrap_mod_frac divide_strict_right_mono)
qed

lemma wrap_mod_id:
  assumes "0 < FREQUENCY p" "0 \<le> y" "y < 1 / FREQUENCY p"
  shows "wrap_mod p y = y"
proof -
  have "y * FREQUENCY p < 1" using assms by (simp add: field_simps)
  moreover have "0 \<le> y * FREQUENCY p" using assms by simp
  ultimately have "\<lfloor>y * FREQUENCY p\<rfloor> = 0" by (simp add: floor_eq_iff)
  then show ?thesis by (simp add: wrap_mod_def)
qed

lemma wrap_mod_add:
  assumes "0 < FREQUENCY p"
  shows "wrap_mod p (wrap_mod p y + z) = wrap_mod p (y + z)"
proof -
  have "(wrap_mod p y + z) * FREQUENCY p = (y + z) * FREQUENCY p - of_int \<lfloor>y * FREQUENCY p\<rfloor>"
    using assms by (simp add: wrap_mod_def field_simps)
  then have "\<lfloor>(wrap_mod p y + z) * FREQUENCY p\<rfloor> = \<lfloor>(y + z) * FREQUENCY p\<rfloor> - \<lfloor>y * FREQUENCY p\<rfloor>"
    by simp
  then show ?thesis
    by (simp add: wrap_mod_def diff_divide_distrib)
qed

lemma sin_shift_int: "sin (x - 2 * pi * of_int k) = sin (x::real)"
proof -
  have "sin (x - 2 * pi * of_int k) = sin x * cos (2 * pi * of_int k) - cos x * sin (2 * pi * of_int k)"
    by (rule sin_diff)
  then show ?thesis by simp
qed

lemma sin_wrap_mod:
  assumes "0 < FREQUENCY p"
  shows "sin (2 * pi * FREQUENCY p * (wrap_mod p y + t)) = sin (2 * pi * FREQUENCY p * (y + t))"
proof -
  have "2 * pi * FREQUENCY p * (wrap_mod p y + t) =
        2 * pi * FREQUENCY p * (y + t) - 2 * pi * of_int \<lfloor>y * FREQUENCY p\<rfloor>"
    using assms by (simp add: wrap_mod_def field_simps)
  then show ?thesis by (simp only: sin_shift_int)
qed

lemma linspace_points:
  assumes "0 < SAMPLERATE p"
  shows "linspace offset (real_of_int (int n) / real_of_int (SAMPLERATE p) + offset) (int n) =
         Inr (map (\<lambda>i. offset + real i / real_of_int (SAMPLERATE p)) [0..<n])"
proof (cases "n = 0")
  case True
  then show ?thesis by (simp add: linspace_def)
next
  case False
  then have "real i * ((real n / real_of_int (SAMPLERATE p) + offset - offset) / real n) =
             real i / real_of_int (SAMPLERATE p)" for i
    by simp
  then show ?thesis by (simp add: linspace_def)
qed

lemma generate_audio_eq:
  assumes "0 < SAMPLERATE p" "0 < FREQUENCY p" "0 \<le> offset"
  shows "generate_audio p (int n) offset =
         Some (Inr (spec_frames p offset n,
                    wrap_mod p (offset + real n / real_of_int (SAMPLERATE p))))"
proof -
  have "0 \<le> offset + real n / real_of_int (SAMPLERATE p)" using assms by simp
  then have "wrap_offset (1 / FREQUENCY p) (offset + real n / real_of_int (SAMPLERATE p)) =
             Some (wrap_mod p (offset + real n / real_of_int (SAMPLERATE p)))"
    using assms wrap_offset_mod by blast
  then show ?thesis
    using assms linspace_points [of p offset n]
    by (simp add: generate_audio_def spec_frames_def tile_def comp_def)
qed


lemma generate_audio_zero:
  assumes "SAMPLERATE p \<noteq> 0" "0 \<le> offset" "offset < 1 / FREQUENCY p"
  shows "generate_audio p 0 offset = Some (Inr ([], offset))"
proof -
  have "FREQUENCY p \<noteq> 0" using assms by auto
  then show ?thesis
    using assms by (simp add: generate_audio_def linspace_def tile_def wrap_offset_below)
qed

lemma remaining_samples_floor:
  assumes "0 < SAMPLERATE p" "offset \<le> 1 / FREQUENCY p"
  shows "remaining_samples p offset = \<lfloor>(1 / FREQUENCY p - offset) * real_of_int (SAMPLERATE p)\<rfloor>"
    and "0 \<le> remaining_samples p offset"
proof -
  have "0 \<le> (1 / FREQUENCY p - offset) * real_of_int (SAMPLERATE p)" using assms by simp
  then show "remaining_samples p offset = \<lfloor>(1 / FREQUENCY p - offset) * real_of_int (SAMPLERATE p)\<rfloor>"
    and "0 \<le> remaining_samples p offset"
    by (simp_all add: remaining_samples_def py_int_def)
qed

lemma sounding_append: "sounding (a @ b) = sounding a + sounding b"
  by (simp add: sounding_def)

lemma sounding_zeros: "sounding (zeros n c) = 0"
  by (simp add: sounding_def zeros_def)

lemma length_zeros: "length (zeros n c) = n"
  by (simp add: zeros_def)

lemma sounding_le: "sounding a \<le> length a"
  by (simp add: sounding_def)

lemma length_spec_frames: "length (spec_frames p offset n) = n"
  by (simp add: spec_frames_def)

lemma callback_gate_on:
  assumes "0 < SAMPLERATE p" "0 < FREQUENCY p" "0 \<le> offset" "gate keys"
  shows "audio_callback p keys frames offset =
         Some (Inr (spec_frames p offset frames,
                    wrap_mod p (offset + real frames / real_of_int (SAMPLERATE p))))"
  using assms by (simp add: audio_callback_def generate_audio_eq)

lemma callback_silent: "\<not> gate keys \<Longrightarrow> audio_callback p keys frames 0 = Some (Inr (zeros frames (CHANNELS p), 0))"
  by (simp add: audio_callback_def)

lemma callback_release:
  assumes "0 < SAMPLERATE p" "0 < FREQUENCY p" "0 < offset" "offset < 1 / FREQUENCY p"
    "\<not> gate keys"
  shows "audio_callback p keys frames offset =
         (if remaining_samples p offset = 0 then Some (Inr (zeros frames (CHANNELS p), 0))
          else
            let n = min (nat (remaining_samples p offset)) frames in
            Some (Inr (spec_frames p offset n @ zeros (frames - n) (CHANNELS p),
                       wrap_mod p (offset + real n / real_of_int (SAMPLERATE p)))))"
proof (cases "remaining_samples p offset = 0")
  case True
  then show ?thesis using assms by (simp add: audio_callback_def)
next
  case False
  have r0: "0 \<le> remaining_samples p offset"
    using remaining_samples_floor(2) [of p offset] assms by simp
  define n where "n = min (nat (remaining_samples p offset)) frames"
  have num: "(if remaining_samples p offset > int frames then int frames
              else remaining_samples p offset) = int n"
    using r0 by (auto simp: n_def min_def)
  have g: "generate_audio p (int n) offset =
           Some (Inr (spec_frames p offset n,
                      wrap_mod p (offset + real n / real_of_int (SAMPLERATE p))))"
    using assms by (simp add: generate_audio_eq)
  have d: "drop n (zeros frames (CHANNELS p)) = zeros (frames - n) (CHANNELS p)"
    by (simp add: zeros_def)
  have m: "max 0 (wrap_mod p (offset + real n / real_of_int (SAMPLERATE p))) =
           wrap_mod p (offset + real n / real_of_int (SAMPLERATE p))"
    using wrap_mod_bounds(1) [of p] assms by (simp add: max_def)
  show ?thesis
    using False assms(2,3,5) n_def [symmetric]
    by (simp add: audio_callback_def Let_def num g d m del: max.absorb2 max.absorb4)
qed


lemma wrap_mod_period: "0 < FREQUENCY p \<Longrightarrow> wrap_mod p (1 / FREQUENCY p) = 0"
  by (simp add: wrap_mod_def)

lemma release_step:
  assumes sr: "0 < SAMPLERATE p" and fr: "0 < FREQUENCY p"
    and o0: "0 \<le> offset" and oP: "offset < 1 / FREQUENCY p" and g: "\<not> gate keys"
  shows "\<exists>buf offset1. audio_callback p keys frames offset = Some (Inr (buf, offset1))
           \<and> 0 \<le> offset1 \<and> offset1 < 1 / FREQUENCY p \<and> length buf = frames
           \<and> real (sounding buf) + tail_left p offset1 \<le> tail_left p offset
           \<and> (1 \<le> frames \<longrightarrow> calls_left p offset1 \<le> calls_left p offset - 1)"
proof -
  let ?P = "1 / FREQUENCY p"
  let ?S = "real_of_int (SAMPLERATE p)"
  let ?r = "remaining_samples p offset"
  have P0: "0 < ?P" using fr by simp
  have S0: "0 < ?S" using sr by simp
  have tl0: "0 \<le> tail_left p offset"
    using oP S0 by (simp add: tail_left_def)
  show ?thesis
  proof (cases "offset = 0")
    case True
    then show ?thesis
      using g P0 by (simp add: callback_silent sounding_zeros length_zeros tail_left_def calls_left_def)
  next
    case False
    then have opos: "0 < offset" using o0 by simp
    have rfl: "?r = \<lfloor>(?P - offset) * ?S\<rfloor>" and r0: "0 \<le> ?r"
      using remaining_samples_floor [of p offset] sr oP by simp_all
    show ?thesis
    proof (cases "?r = 0")
      case True
      then have "audio_callback p keys frames offset = Some (Inr (zeros frames (CHANNELS p), 0))"
        using callback_release [OF sr fr opos oP g, of frames] by simp
      then show ?thesis
        using P0 tl0 by (simp add: sounding_zeros length_zeros tail_left_def calls_left_def)
    next
      case rne: False
      define n where "n = min (nat ?r) frames"
      define y where "y = offset + real n / ?S"
      have cb: "audio_callback p keys frames offset =
                Some (Inr (spec_frames p offset n @ zeros (frames - n) (CHANNELS p), wrap_mod p y))"
        using callback_release [OF sr fr opos oP g, of frames] rne
        by (simp add: n_def y_def Let_def)
      have len: "length (spec_frames p offset n @ zeros (frames - n) (CHANNELS p)) = frames"
        by (simp add: length_spec_frames length_zeros n_def)
      have snd: "sounding (spec_frames p offset n @ zeros (frames - n) (CHANNELS p)) \<le> n"
        using sounding_le [of "spec_frames p offset n"]
        by (simp add: sounding_append sounding_zeros length_spec_frames)
      have "int n \<le> ?r" using r0 by (simp add: n_def)
      then have "real_of_int (int n) \<le> real_of_int ?r" by (simp only: of_int_le_iff)
      also have "\<dots> \<le> (?P - offset) * ?S" by (simp add: rfl)
      finally have nle: "real n \<le> (?P - offset) * ?S" by simp
      then have "real n / ?S \<le> ?P - offset"
        using S0 by (simp add: field_simps)
      then have yP: "y \<le> ?P" by (simp add: y_def)
      have ypos: "0 < y" using opos S0 by (simp add: y_def add_pos_nonneg)
      have tlo: "tail_left p offset = (?P - offset) * ?S"
        using False by (simp add: tail_left_def)
      have clo: "calls_left p offset = nat ?r + 1"
        using False by (simp add: calls_left_def)
      show ?thesis
      proof (cases "y = ?P")
        case True
        then have w: "wrap_mod p y = 0" using fr by (simp add: wrap_mod_period)
        have z: "tail_left p 0 = 0" "calls_left p 0 = 0"
          by (simp_all add: tail_left_def calls_left_def)
        have "real (sounding (spec_frames p offset n @ zeros (frames - n) (CHANNELS p)))
                \<le> tail_left p offset"
          using snd nle by (simp add: tlo)
        then show ?thesis
          using cb len P0 by (simp add: w z)
      next
        case False
        then have ylt: "y < ?P" using yP by simp
        then have w: "wrap_mod p y = y" using wrap_mod_id [of p y] fr ypos by simp
        have "(?P - y) * ?S = (?P - offset) * ?S - real n"
          using S0 by (simp add: y_def field_simps)
        then have tly: "tail_left p y = (?P - offset) * ?S - real n"
          using ypos by (simp add: tail_left_def)
        have "remaining_samples p y = \<lfloor>(?P - y) * ?S\<rfloor>"
          using remaining_samples_floor(1) [of p y] sr ylt by simp
        also have "\<dots> = \<lfloor>(?P - offset) * ?S - real_of_int (int n)\<rfloor>"
          using \<open>(?P - y) * ?S = (?P - offset) * ?S - real n\<close> by simp
        also have "\<dots> = ?r - int n" by (simp only: floor_diff_of_int rfl)
        finally have ry: "remaining_samples p y = ?r - int n" .
        have cly: "calls_left p y = nat (?r - int n) + 1"
          using ypos ry by (simp add: calls_left_def)
        have cl: "1 \<le> frames \<longrightarrow> calls_left p y \<le> calls_left p offset - 1"
        proof
          assume "1 \<le> frames"
          then have "1 \<le> n" using r0 rne by (simp add: n_def)
          then show "calls_left p y \<le> calls_left p offset - 1"
            using \<open>int n \<le> ?r\<close> by (simp add: cly clo)
        qed
        have "real (sounding (spec_frames p offset n @ zeros (frames - n) (CHANNELS p)))
                + tail_left p y \<le> tail_left p offset"
          using snd by (simp add: tly tlo)
        then show ?thesis
          using cb len cl ylt ypos by (simp add: w)
      qed
    qed
  qed
qed

section \<open>Properties of the render callback\<close>

lemma callback_invariant:
  assumes sr: "0 < SAMPLERATE p" and fr: "0 < FREQUENCY p"
    and o0: "0 \<le> offset" and oP: "offset < 1 / FREQUENCY p"
  shows "\<exists>buf offset1. audio_callback p keys frames offset = Some (Inr (buf, offset1))
           \<and> 0 \<le> offset1 \<and> offset1 < 1 / FREQUENCY p \<and> length buf = frames"
proof (cases "gate keys")
  case True
  then show ?thesis
    using callback_gate_on [OF sr fr o0, of keys frames] wrap_mod_bounds [OF fr]
    by (simp add: length_spec_frames)
next
  case False
  then show ?thesis
    using release_step [OF sr fr o0 oP, of keys frames] by blast
qed

lemma stream_invariant:
  assumes sr: "0 < SAMPLERATE p" and fr: "0 < FREQUENCY p"
  shows "0 \<le> offset \<Longrightarrow> offset < 1 / FREQUENCY p \<Longrightarrow>
         \<exists>bufs offset1. stream p invs offset = Some (Inr (bufs, offset1))
           \<and> 0 \<le> offset1 \<and> offset1 < 1 / FREQUENCY p
           \<and> map length bufs = map snd invs"
proof (induction invs arbitrary: offset)
  case Nil
  then show ?case by simp
next
  case (Cons inv invs)
  obtain keys frames where inv: "inv = (keys, frames)" by (cases inv)
  obtain buf o1 where cb: "audio_callback p keys frames offset = Some (Inr (buf, o1))"
    "0 \<le> o1" "o1 < 1 / FREQUENCY p" "length buf = frames"
    using callback_invariant [OF sr fr Cons.prems, of keys frames] by blast
  obtain bufs o2 where st: "stream p invs o1 = Some (Inr (bufs, o2))"
    "0 \<le> o2" "o2 < 1 / FREQUENCY p" "map length bufs = map snd invs"
    using Cons.IH [OF cb(2,3)] by blast
  show ?case using cb st by (simp add: inv)
qed





lemma map_upt_shift: "map f [n..<n + m] = map (\<lambda>i. f (n + i)) [0..<m]"
  by (induction m) simp_all

lemma map_upt_split: "map f [0..<n + m] = map f [0..<n] @ map (\<lambda>i. f (n + i)) [0..<m]"
  by (simp only: upt_add_eq_append [OF le0] map_append map_upt_shift)

lemma generate_chunks_eq:
  assumes sr: "0 < SAMPLERATE p" and fr: "0 < FREQUENCY p"
  shows "0 \<le> offset \<Longrightarrow>
         generate_chunks p ns offset =
         Some (Inr (spec_frames p offset (sum_list ns),
                    if ns = [] then offset
                    else wrap_mod p (offset + real (sum_list ns) / real_of_int (SAMPLERATE p))))"
proof (induction ns arbitrary: offset)
  case Nil
  then show ?case by (simp add: spec_frames_def)
next
  case (Cons n ns)
  let ?S = "real_of_int (SAMPLERATE p)"
  let ?o1 = "wrap_mod p (offset + real n / ?S)"
  have o1: "0 \<le> ?o1" using wrap_mod_bounds(1) [OF fr] .
  have g: "generate_audio p (int n) offset = Some (Inr (spec_frames p offset n, ?o1))"
    using generate_audio_eq [OF sr fr Cons.prems] .
  have frames: "spec_frames p offset n @ spec_frames p ?o1 m = spec_frames p offset (n + m)" for m
  proof -
    have "sin (2 * pi * FREQUENCY p * (?o1 + real i / ?S)) =
          sin (2 * pi * FREQUENCY p * (offset + real (n + i) / ?S))" for i
      using sin_wrap_mod [OF fr, of "offset + real n / ?S" "real i / ?S"]
      by (simp add: add_divide_distrib add.assoc)
    then show ?thesis
      unfolding spec_frames_def by (simp only: map_upt_split)
  qed
  have off: "wrap_mod p (?o1 + real m / ?S) = wrap_mod p (offset + real (n + m) / ?S)" for m
    using wrap_mod_add [OF fr, of "offset + real n / ?S" "real m / ?S"]
    by (simp add: add_divide_distrib add.assoc)
  show ?case
  proof (cases "ns = []")
    case True
    then show ?thesis using g by (simp add: spec_frames_def)
  next
    case False
    then show ?thesis
      using g Cons.IH [OF o1] frames [of "sum_list ns"] off [of "sum_list ns"] by simp
  qed
qed

section \<open>Main results on the oscillator and the callback\<close>

lemma default_params_simps:
  "FREQUENCY default_params = 440" "VOLUME default_params = 1 / 2"
  "SAMPLERATE default_params = 44100" "CHANNELS default_params = 2"
  by (simp_all add: default_params_def)

lemma unit_params_simps:
  "FREQUENCY unit_params = 1" "VOLUME unit_params = 1"
  "SAMPLERATE unit_params = 2" "CHANNELS unit_params = 1"
  by (simp_all add: unit_params_def)



text \<open>
  Claim C1. Phase continuity: for a positive frequency and sample rate and a starting
  offset in \<open>[0, period)\<close>, whenever a sample count is split into consecutive calls,
  each fed the offset the call before returned, the concatenation of the returned
  blocks is the block returned by one call for the whole count. Over the reals the two
  streams are equal, not only close.
\<close>

theorem phase_continuity:
  assumes "0 < SAMPLERATE p" and "0 < FREQUENCY p"
    and "0 \<le> offset" and "offset < 1 / FREQUENCY p"
    and "generate_chunks p ns offset = Some (Inr (a, offset1))"
    and "generate_audio p (int (sum_list ns)) offset = Some (Inr (b, offset2))"
  shows "a = b \<and> length a = sum_list ns"
  using assms generate_chunks_eq [OF assms(1,2,3), of ns]
    generate_audio_eq [OF assms(1,2,3), of "sum_list ns"]
  by (auto simp: length_spec_frames)

theorem phase_continuity_witness:
  "\<exists>a offset1 offset2.
     generate_chunks default_params [256, 0, 100, 256] (1 / 1000) = Some (Inr (a, offset1))
     \<and> generate_audio default_params (int (sum_list [256, 0, 100, 256])) (1 / 1000) =
         Some (Inr (a, offset2))
     \<and> length a = 612"
proof -
  have v: "0 < SAMPLERATE default_params" "0 < FREQUENCY default_params"
    "(0::real) \<le> 1 / 1000" "1 / 1000 < 1 / FREQUENCY default_params"
    by (simp_all add: default_params_simps)
  obtain a offset1 where
    c: "generate_chunks default_params [256, 0, 100, 256] (1 / 1000) = Some (Inr (a, offset1))"
    using generate_chunks_eq [OF v(1,2,3), of "[256, 0, 100, 256]"] by simp
  obtain b offset2 where
    g: "generate_audio default_params (int (sum_list [256, 0, 100, 256])) (1 / 1000) =
        Some (Inr (b, offset2))"
    using generate_audio_eq [OF v(1,2,3), of "sum_list [256, 0, 100, 256]"] by simp
  have "a = b \<and> length a = sum_list [256, 0, 100, 256]"
    using phase_continuity [OF v c g] .
  then show ?thesis using c g by auto
qed



text \<open>
  Claim C3. Offset invariant: from an offset in \<open>[0, period)\<close>, the offset returned by
  \<open>generate_audio\<close> for any sample count, the offset stored by one invocation of the
  callback (gate asserted or released, the clamp at zero included), and the offset
  stored after any sequence of invocations all lie in \<open>[0, period)\<close>.
\<close>

theorem offset_invariant:
  assumes "0 < SAMPLERATE p" and "0 < FREQUENCY p"
    and "0 \<le> offset" and "offset < 1 / FREQUENCY p"
  shows "(generate_audio p (int n) offset = Some (Inr (a, offset1)) \<longrightarrow>
            0 \<le> offset1 \<and> offset1 < 1 / FREQUENCY p)
         \<and> (audio_callback p keys frames offset = Some (Inr (buf, offset2)) \<longrightarrow>
            0 \<le> offset2 \<and> offset2 < 1 / FREQUENCY p)
         \<and> (stream p invs offset = Some (Inr (bufs, offset3)) \<longrightarrow>
            0 \<le> offset3 \<and> offset3 < 1 / FREQUENCY p)"
proof (intro conjI impI)
  assume "generate_audio p (int n) offset = Some (Inr (a, offset1))"
  then have "offset1 = wrap_mod p (offset + real n / real_of_int (SAMPLERATE p))"
    using generate_audio_eq [OF assms(1,2,3), of n] by simp
  then show "0 \<le> offset1" and "offset1 < 1 / FREQUENCY p"
    using wrap_mod_bounds [OF assms(2)] by simp_all
next
  assume h: "audio_callback p keys frames offset = Some (Inr (buf, offset2))"
  obtain buf' o' where "audio_callback p keys frames offset = Some (Inr (buf', o'))"
    "0 \<le> o'" "o' < 1 / FREQUENCY p"
    using callback_invariant [OF assms, of keys frames] by blast
  with h show "0 \<le> offset2" and "offset2 < 1 / FREQUENCY p" by simp_all
next
  assume h: "stream p invs offset = Some (Inr (bufs, offset3))"
  obtain bufs' o' where "stream p invs offset = Some (Inr (bufs', o'))"
    "0 \<le> o'" "o' < 1 / FREQUENCY p"
    using stream_invariant [OF assms, of invs] by blast
  with h show "0 \<le> offset3" and "offset3 < 1 / FREQUENCY p" by simp_all
qed

theorem offset_invariant_witness:
  "(\<exists>a offset1. generate_audio default_params (int 256) (1 / 1000) = Some (Inr (a, offset1))
      \<and> 0 \<le> offset1 \<and> offset1 < 1 / 440)
   \<and> (\<exists>buf offset2. audio_callback default_params [(Key ''shift_r'', False)] 256 (1 / 1000) =
        Some (Inr (buf, offset2)) \<and> 0 \<le> offset2 \<and> offset2 < 1 / 440)
   \<and> (\<exists>bufs offset3.
        stream default_params
          [([(Key ''shift_r'', True)], 256), ([(Key ''shift_r'', False)], 256)] (1 / 1000) =
        Some (Inr (bufs, offset3)) \<and> 0 \<le> offset3 \<and> offset3 < 1 / 440)"
proof -
  let ?invs = "[([(Key ''shift_r'', True)], 256), ([(Key ''shift_r'', False)], 256)]"
  have v: "0 < SAMPLERATE default_params" "0 < FREQUENCY default_params"
    "(0::real) \<le> 1 / 1000" "1 / 1000 < 1 / FREQUENCY default_params"
    by (simp_all add: default_params_simps)
  obtain a o1 where g: "generate_audio default_params (int 256) (1 / 1000) = Some (Inr (a, o1))"
    using generate_audio_eq [OF v(1,2,3), of 256] by simp
  obtain buf o2 where
    c: "audio_callback default_params [(Key ''shift_r'', False)] 256 (1 / 1000) =
        Some (Inr (buf, o2))"
    using callback_invariant [OF v, of "[(Key ''shift_r'', False)]" 256] by blast
  obtain bufs o3 where s: "stream default_params ?invs (1 / 1000) = Some (Inr (bufs, o3))"
    using stream_invariant [OF v, of ?invs] by blast
  have "(0 \<le> o1 \<and> o1 < 1 / 440) \<and> (0 \<le> o2 \<and> o2 < 1 / 440) \<and> (0 \<le> o3 \<and> o3 < 1 / 440)"
    using offset_invariant [OF v, of 256 a o1 "[(Key ''shift_r'', False)]" 256 buf o2 ?invs bufs o3]
      g c s
    by (simp add: default_params_simps)
  then show ?thesis using g c s by blast
qed

text \<open>
  Claim C7. With \<open>num_samples = 0\<close> and an offset in \<open>[0, period)\<close>,
  \<open>generate_audio\<close> raises nothing and returns no samples and the offset it was given.
\<close>

theorem zero_samples_noop:
  assumes "SAMPLERATE p \<noteq> 0" and "0 \<le> offset" and "offset < 1 / FREQUENCY p"
  shows "generate_audio p 0 offset = Some (Inr ([], offset))"
  using assms by (rule generate_audio_zero)

theorem zero_samples_noop_witness:
  "generate_audio default_params 0 (1 / 1000) = Some (Inr ([], 1 / 1000))"
  using zero_samples_noop [of default_params "1 / 1000"]
  by (simp add: default_params_simps)

text \<open>
  Claim C4 reads the release-tail sample count as the nearest integer to
  \<open>(1 / frequency - offset) \<cdot> sample_rate\<close>. The callback truncates instead: with a
  period of one second, two samples per second and an offset of \<open>1/8\<close> the product is
  \<open>7/4\<close>, whose nearest integer is 2, and the callback writes one sample.
\<close>

theorem remaining_samples_round_counterexample:
  "remaining_samples unit_params (1 / 8) = 1
   \<and> round ((1 / FREQUENCY unit_params - 1 / 8) * real_of_int (SAMPLERATE unit_params)) = 2
   \<and> audio_callback unit_params [(Key ''shift_r'', False)] 4 (1 / 8) =
       Some (Inr ([[sin (2 * pi * (1 / 8))], [0], [0], [0]], 5 / 8))"
proof -
  have r: "remaining_samples unit_params (1 / 8) = 1"
    by (simp add: remaining_samples_def py_int_def unit_params_simps)
  have "round ((1 / FREQUENCY unit_params - 1 / 8) * real_of_int (SAMPLERATE unit_params)) = 2"
    by (simp add: unit_params_simps round_def)
  moreover have "audio_callback unit_params [(Key ''shift_r'', False)] 4 (1 / 8) =
       Some (Inr ([[sin (2 * pi * (1 / 8))], [0], [0], [0]], 5 / 8))"
    using callback_release [of unit_params "1 / 8" "[(Key ''shift_r'', False)]" 4]
      wrap_mod_id [of unit_params "5 / 8"]
    by (simp add: r unit_params_simps gate_def spec_frames_def zeros_def numeral_eq_Suc)
  ultimately show ?thesis using r by simp
qed

text \<open>
  Claim C4, amended. The release-tail sample count is the product
  \<open>(1 / frequency - offset) \<cdot> sample_rate\<close> truncated toward zero by Python's \<open>int\<close>,
  not rounded: on a non-negative value \<open>int\<close> is the integer part, never above the
  nearest integer, equal to it when the fractional part is below one half and one less
  when it is above one half (at one half itself the nearest integer depends on how ties
  are rounded, and nothing is said).
  For an offset in \<open>(0, period)\<close> and a period of at most \<open>2^31\<close> samples the count is
  not negative, is the nearest integer to the product or the integer below it, and is
  the integer part of the product wherever the product is at least a quarter away from
  every integer. Within that distance of an integer the rounding of the floating-point
  product, which the exact arithmetic of this model leaves out, decides between the two
  neighbouring counts; the bound on the period keeps that rounding far below a quarter.
\<close>

theorem remaining_samples_truncates:
  "(0 \<le> y \<longrightarrow>
      py_int y = \<lfloor>y\<rfloor> \<and> py_int y \<le> round y
      \<and> (frac y < 1 / 2 \<longrightarrow> py_int y = round y)
      \<and> (1 / 2 < frac y \<longrightarrow> py_int y = round y - 1))
   \<and> (0 < SAMPLERATE p \<and> 0 < offset \<and> offset < 1 / FREQUENCY p
        \<and> real_of_int (SAMPLERATE p) \<le> 2 ^ 31 * FREQUENCY p \<longrightarrow>
      0 \<le> remaining_samples p offset
      \<and> round ((1 / FREQUENCY p - offset) * real_of_int (SAMPLERATE p)) - 1
          \<le> remaining_samples p offset
      \<and> remaining_samples p offset
          \<le> round ((1 / FREQUENCY p - offset) * real_of_int (SAMPLERATE p))
      \<and> (1 / 4 \<le> frac ((1 / FREQUENCY p - offset) * real_of_int (SAMPLERATE p))
           \<and> frac ((1 / FREQUENCY p - offset) * real_of_int (SAMPLERATE p)) \<le> 3 / 4 \<longrightarrow>
          remaining_samples p offset =
            \<lfloor>(1 / FREQUENCY p - offset) * real_of_int (SAMPLERATE p)\<rfloor>))"
proof (intro conjI impI)
  assume "0 \<le> y"
  then show "py_int y = \<lfloor>y\<rfloor>" by (simp add: py_int_def)
  show "py_int y \<le> round y"
    using \<open>0 \<le> y\<close> unfolding py_int_def round_def by simp linarith
  show "py_int y = round y" if "frac y < 1 / 2"
    using \<open>0 \<le> y\<close> that unfolding py_int_def round_def frac_def by simp linarith
  show "py_int y = round y - 1" if "1 / 2 < frac y"
    using \<open>0 \<le> y\<close> that unfolding py_int_def round_def frac_def by simp linarith
next
  let ?x = "(1 / FREQUENCY p - offset) * real_of_int (SAMPLERATE p)"
  assume v: "0 < SAMPLERATE p \<and> 0 < offset \<and> offset < 1 / FREQUENCY p
        \<and> real_of_int (SAMPLERATE p) \<le> 2 ^ 31 * FREQUENCY p"
  have r: "remaining_samples p offset = \<lfloor>?x\<rfloor>" and r0: "0 \<le> remaining_samples p offset"
    using remaining_samples_floor [of p offset] v by simp_all
  show "0 \<le> remaining_samples p offset" by (rule r0)
  show "round ?x - 1 \<le> remaining_samples p offset"
    unfolding r round_def by linarith
  show "remaining_samples p offset \<le> round ?x"
    unfolding r round_def by linarith
  show "remaining_samples p offset = \<lfloor>?x\<rfloor>" by (rule r)
qed

theorem remaining_samples_truncates_witness:
  "py_int (7 / 4) = 1 \<and> py_int (7 / 4) \<noteq> round (7 / 4 :: real)
   \<and> remaining_samples default_params (1 / 3000) = 85
   \<and> round ((1 / 440 - 1 / 3000) * (44100::real)) = 86
   \<and> remaining_samples unit_params (1 / 8) = 1
   \<and> round ((1 / 1 - 1 / 8) * (2::real)) = 2"
proof -
  have f1: "frac (7 / 4 :: real) = 3 / 4" by (simp add: frac_def)
  have p: "py_int (7 / 4) = 1 \<and> py_int (7 / 4) \<noteq> round (7 / 4 :: real)"
    using remaining_samples_truncates [of "7 / 4" default_params "1 / 3000"]
    by (simp add: f1 round_def)
  have x2: "(1 / 440 - 1 / 3000) * (44100::real) = 85 + 29 / 55" by simp
  have f2: "frac ((1 / 440 - 1 / 3000) * (44100::real)) = 29 / 55"
    unfolding x2 by (simp add: frac_def)
  have fl2: "\<lfloor>(1 / 440 - 1 / 3000) * (44100::real)\<rfloor> = 85" by simp
  have r2: "round ((1 / 440 - 1 / 3000) * (44100::real)) = 86" by (simp add: round_def)
  have d: "remaining_samples default_params (1 / 3000) = 85"
    using remaining_samples_truncates [of 0 default_params "1 / 3000"] f2 fl2
    by (simp add: default_params_simps)
  have f3: "frac ((1 / 1 - 1 / 8) * (2::real)) = 3 / 4" by (simp add: frac_def)
  have r3: "round ((1 / 1 - 1 / 8) * (2::real)) = 2" by (simp add: round_def)
  have u: "remaining_samples unit_params (1 / 8) = 1"
    using remaining_samples_truncates [of 0 unit_params "1 / 8"] f3
    by (simp add: unit_params_simps)
  show ?thesis using p d r2 u r3 by simp
qed





end
